theory Spec2Isabelle
  imports Main "HOL-Library.Sublist" "HOL-Library.AList"
begin

section \<open>Python strings\<close>

text \<open>
  A Python \<open>str\<close> is modelled as a \<open>string\<close>. Text outside ASCII is carried in its
  UTF-8 encoding, as the source files and the two input files store it: every byte of a
  multi-byte sequence is at least \<open>0x80\<close>, so it is never taken for an ASCII character,
  two strings are equal exactly when their encodings are, and replacing or splitting at
  ASCII characters commutes with the encoding. The character classes and the case
  mappings of Python are modelled on ASCII, where they are exact; a byte from \<open>0x80\<close> on
  is neither whitespace nor a digit and has no case.
\<close>

definition ascii_uppercase :: string where
  "ascii_uppercase = ''ABCDEFGHIJKLMNOPQRSTUVWXYZ''"

definition ascii_lowercase :: string where
  "ascii_lowercase = ''abcdefghijklmnopqrstuvwxyz''"

definition digits :: string where
  "digits = ''0123456789''"

text \<open>\<open>str.isspace\<close> on one character, also the class \<open>\s\<close> of \<open>re\<close>: tab, line feed,
  vertical tab, form feed, carriage return, the four separators \<open>0x1C\<close> to \<open>0x1F\<close>, and
  the space.\<close>

definition isspace :: "char \<Rightarrow> bool" where
  "isspace c = (c \<in> set [CHR 0x09, CHR 0x0A, CHR 0x0B, CHR 0x0C, CHR 0x0D,
                           CHR 0x1C, CHR 0x1D, CHR 0x1E, CHR 0x1F, CHR 0x20])"

text \<open>The classes \<open>[A-Z]\<close>, \<open>[a-z]\<close>, \<open>\d\<close> and \<open>[a-zA-Z0-9]\<close>.\<close>

definition isupper :: "char \<Rightarrow> bool" where
  "isupper c = (c \<in> set ascii_uppercase)"

definition islower :: "char \<Rightarrow> bool" where
  "islower c = (c \<in> set ascii_lowercase)"

definition isdigit :: "char \<Rightarrow> bool" where
  "isdigit c = (c \<in> set digits)"

definition isalnum :: "char \<Rightarrow> bool" where
  "isalnum c = (islower c \<or> isupper c \<or> isdigit c)"

definition lower_char :: "char \<Rightarrow> char" where
  "lower_char c = (case map_of (zip ascii_uppercase ascii_lowercase) c of
                     None \<Rightarrow> c | Some d \<Rightarrow> d)"

definition upper_char :: "char \<Rightarrow> char" where
  "upper_char c = (case map_of (zip ascii_lowercase ascii_uppercase) c of
                     None \<Rightarrow> c | Some d \<Rightarrow> d)"

text \<open>\<open>s.lower()\<close>.\<close>

definition str_lower :: "string \<Rightarrow> string" where
  "str_lower s = map lower_char s"

text \<open>\<open>s.capitalize()\<close>: the first character in upper case, the others in lower case.\<close>

definition str_capitalize :: "string \<Rightarrow> string" where
  "str_capitalize s = (case s of [] \<Rightarrow> [] | c # cs \<Rightarrow> upper_char c # map lower_char cs)"

text \<open>\<open>s.replace(old, new)\<close> for a one-character \<open>old\<close>, the only way the scripts
  call it: every occurrence of \<open>old\<close> gives way to \<open>new\<close>.\<close>

definition str_replace :: "char \<Rightarrow> string \<Rightarrow> string \<Rightarrow> string" where
  "str_replace old new s = concat (map (\<lambda>c. if c = old then new else [c]) s)"

text \<open>\<open>s.split()\<close> with no argument, as CPython runs it: skip whitespace, stop at the
  end of the string, else cut the longest run without whitespace and go on behind it.\<close>

function str_split :: "string \<Rightarrow> string list" where
  "str_split s =
     (case dropWhile isspace s of
        [] \<Rightarrow> []
      | c # cs \<Rightarrow> (c # takeWhile (\<lambda>x. \<not> isspace x) cs)
                   # str_split (dropWhile (\<lambda>x. \<not> isspace x) cs))"
  by pat_completeness auto
termination
proof (relation "measure length")
  show "wf (measure length)" by simp
next
  fix s :: string and c cs
  assume "dropWhile isspace s = c # cs"
  then have "length s \<ge> Suc (length cs)"
    using length_dropWhile_le [of isspace s] by simp
  moreover have "length (dropWhile (\<lambda>x. \<not> isspace x) cs) \<le> length cs"
    by (rule length_dropWhile_le)
  ultimately show "(dropWhile (\<lambda>x. \<not> isspace x) cs, s) \<in> measure length"
    by simp
qed

text \<open>\<open>s.strip()\<close>: whitespace is dropped at both ends.\<close>

definition str_strip :: "string \<Rightarrow> string" where
  "str_strip s = rev (dropWhile isspace (rev (dropWhile isspace s)))"

text \<open>\<open>sub in s\<close>: \<open>sub\<close> starts at some position of \<open>s\<close>.\<close>

fun str_in :: "string \<Rightarrow> string \<Rightarrow> bool" where
  "str_in sub [] = (sub = [])"
| "str_in sub (c # cs) = (prefix sub (c # cs) \<or> str_in sub cs)"

text \<open>\<open>str(n)\<close> for a length: the decimal numeral.\<close>

function str_nat :: "nat \<Rightarrow> string" where
  "str_nat n = (if n < 10 then [digits ! n] else str_nat (n div 10) @ [digits ! (n mod 10)])"
  by pat_completeness auto
termination
  by (relation "measure id") auto

section \<open>The regular expressions of the scripts\<close>

text \<open>
  Each pattern is read as the scanner that \<open>re\<close> runs for it.

  \<open>re.search(r'make_jokers!\((.*?)\);', content, re.DOTALL)\<close>: the leftmost position
  where \<open>make_jokers!(\<close> stands and a \<open>);\<close> follows; the lazy group is the text up to
  the first such \<open>);\<close>. \<open>text_before\<close> cuts a string before the first occurrence of a
  mark.
\<close>

fun text_before :: "string \<Rightarrow> string \<Rightarrow> string option" where
  "text_before mark [] = (if mark = [] then Some [] else None)"
| "text_before mark (c # cs) =
     (if prefix mark (c # cs) then Some []
      else map_option (\<lambda>g. c # g) (text_before mark cs))"

fun macro_search :: "string \<Rightarrow> string option" where
  "macro_search [] = None"
| "macro_search (c # cs) =
     (if prefix ''make_jokers!('' (c # cs) then
        (case text_before '');'' (drop (length ''make_jokers!('') (c # cs)) of
           Some macro_content \<Rightarrow> Some macro_content
         | None \<Rightarrow> macro_search cs)
      else macro_search cs)"

text \<open>\<open>re.findall(r'([A-Z][a-zA-Z0-9]*)', macro_content)\<close>: at an upper-case letter the
  longest alphanumeric run is a token and the scan goes on behind it; any other
  character is passed over.\<close>

function findall_ident :: "string \<Rightarrow> string list" where
  "findall_ident [] = []"
| "findall_ident (c # cs) =
     (if isupper c then (c # takeWhile isalnum cs) # findall_ident (dropWhile isalnum cs)
      else findall_ident cs)"
  by pat_completeness auto
termination
  by (relation "measure length") (auto simp: less_Suc_eq_le length_dropWhile_le)

text \<open>
  The row pattern
  \<open>\|\s*(\d+)\s*\|\s*([^|]+?)\s*\|\s*\$(\d+)\s*\|\s*([^|]+?)\s*\|\s*([^|]+?)\s*\|\<close>,
  matched at the start of a line. No class of a cell holds the bar, so the bars of the
  pattern are the first six bars of the line, and each cell is matched on its own.

  A number cell \<open>\s*(\d+)\s*\|\<close>: whitespace, the digits (at least one), whitespace,
  the bar. The cost cell has a dollar sign before the digits.
\<close>

definition close_cell :: "string \<Rightarrow> string \<Rightarrow> (string \<times> string) option" where
  "close_cell grp s =
     (case dropWhile isspace s of
        [] \<Rightarrow> None
      | c # rest \<Rightarrow> if c = CHR ''|'' \<and> grp \<noteq> [] then Some (grp, rest) else None)"

definition number_cell :: "string \<Rightarrow> (string \<times> string) option" where
  "number_cell s =
     (let s1 = dropWhile isspace s
      in close_cell (takeWhile isdigit s1) (dropWhile isdigit s1))"

definition cost_cell :: "string \<Rightarrow> (string \<times> string) option" where
  "cost_cell s =
     (case dropWhile isspace s of
        [] \<Rightarrow> None
      | c # s1 \<Rightarrow> if c = CHR ''$''
                  then close_cell (takeWhile isdigit s1) (dropWhile isdigit s1)
                  else None)"

text \<open>
  A text cell \<open>\s*([^|]+?)\s*\|\<close>: the cell is the text before the next bar and must
  not be empty. The leading \<open>\s*\<close> is greedy and the group lazy, so the group is the
  cell without the whitespace at its ends; a cell of whitespace alone leaves its last
  character to the group.
\<close>

definition text_cell :: "string \<Rightarrow> (string \<times> string) option" where
  "text_cell s =
     (let cell = takeWhile (\<lambda>c. c \<noteq> CHR ''|'') s
      in case dropWhile (\<lambda>c. c \<noteq> CHR ''|'') s of
           [] \<Rightarrow> None
         | bar # rest \<Rightarrow>
             if cell = [] then None
             else if str_strip cell = [] then Some ([last cell], rest)
             else Some (str_strip cell, rest))"

definition row_match :: "string \<Rightarrow> (string \<times> string \<times> string \<times> string \<times> string) option" where
  "row_match line =
     (case line of
        [] \<Rightarrow> None
      | c # s0 \<Rightarrow>
          if c \<noteq> CHR ''|'' then None
          else Option.bind (number_cell s0) (\<lambda>(num, s1).
               Option.bind (text_cell s1) (\<lambda>(name, s2).
               Option.bind (cost_cell s2) (\<lambda>(cost, s3).
               Option.bind (text_cell s3) (\<lambda>(effect, s4).
               Option.bind (text_cell s4) (\<lambda>(unlock, s5).
                 Some (num, name, cost, effect, unlock)))))))"

section \<open>The name canonicalizer\<close>

text \<open>\<open>to_camel_case\<close>, the same function in \<open>find_missing.py\<close> and in
  \<open>missing_jokers_analysis.py\<close>. The seventh key is the name with its accented letter
  decoded under the wrong encoding, as the scripts spell it: U+00C3 and U+00A9 after
  the \<open>S\<close>.\<close>

definition general_rule :: "string \<Rightarrow> string" where
  "general_rule name =
     (let name1 = str_replace (CHR ''-'') '' ''
                    (str_replace (CHR ''!'') [] (str_replace (CHR 0x27) [] name));
          words = str_split name1
      in concat (map str_capitalize words))"

definition to_camel_case :: "string \<Rightarrow> string" where
  "to_camel_case name =
     (if name = ''Joker'' then ''TheJoker''
      else if name = ''Oops! All 6s'' then ''OopsAll6s''
      else if name = ''8 Ball'' then ''EightBall''
      else if name = ''Mail-In Rebate'' then ''MailInRebate''
      else if name = ''Riff-Raff'' then ''RiffRaff''
      else if name = ''Walkie Talkie'' then ''WalkieTalkie''
      else if name = [CHR ''S'', CHR 0xC3, CHR 0x83, CHR 0xC2, CHR 0xA9, CHR ''a'', CHR ''n'', CHR ''c'', CHR ''e'']
           then ''Seance''
      else if name = ''Sock and Buskin'' then ''SockAndBuskin''
      else if name = ''Driver's License'' then ''DriverLicense''
      else general_rule name)"

section \<open>Reading the implementation source\<close>

text \<open>Lines 7 to 12 of both scripts. When \<open>macro_match\<close> is \<open>None\<close> the body of the \<open>if\<close>
  is skipped and the names \<open>implemented\<close>, \<open>implemented_set\<close> and \<open>implemented_lower\<close>
  stay unbound: the value \<open>None\<close> below. A later read of an unbound name raises
  \<open>NameError\<close>.\<close>

datatype error = NameError string

definition stop_list :: "string list" where
  "stop_list = [''Missing'', ''jokers'', ''adding'', ''to'', ''reach'', ''total'']"

definition implemented :: "string \<Rightarrow> string list option" where
  "implemented content =
     (case macro_search content of
        None \<Rightarrow> None
      | Some macro_content \<Rightarrow>
          Some (filter (\<lambda>j. j \<notin> set stop_list) (findall_ident macro_content)))"

text \<open>\<open>implemented_set = {j.lower() for j in implemented}\<close> in
  \<open>missing_jokers_analysis.py\<close>.\<close>

definition implemented_set :: "string \<Rightarrow> string set option" where
  "implemented_set content = map_option (\<lambda>impl. set (map str_lower impl)) (implemented content)"

text \<open>\<open>implemented_lower = {j.lower(): j for j in implemented}\<close> in \<open>find_missing.py\<close>:
  a dictionary, kept in insertion order; a key written again keeps its place and takes
  the new value, which is what \<open>AList.update\<close> does.\<close>

definition implemented_lower :: "string \<Rightarrow> (string \<times> string) list option" where
  "implemented_lower content =
     map_option (\<lambda>impl. fold (\<lambda>j d. AList.update (str_lower j) j d) impl []) (implemented content)"

section \<open>Reading the catalog\<close>

text \<open>One occurrence of a name in \<open>missing_jokers_analysis.py\<close>: the dictionary appended
  at lines 39 to 46, with its keys \<open>line\<close>, \<open>section\<close>, \<open>num\<close>, \<open>cost\<close>, \<open>effect\<close> and
  \<open>unlock\<close>.\<close>

record entry =
  e_line :: nat
  e_section :: string
  e_num :: string
  e_cost :: string
  e_effect :: string
  e_unlock :: string

text \<open>Lines 22 to 29: a header line moves the current section.\<close>

definition next_section :: "string \<Rightarrow> string \<Rightarrow> string" where
  "next_section current_section line =
     (if str_in ''# Common Jokers'' line then ''Common''
      else if str_in ''# Uncommon Jokers'' line then ''Uncommon''
      else if str_in ''# Rare Jokers'' line then ''Rare''
      else if str_in ''# Legendary Jokers'' line then ''Legendary''
      else current_section)"

text \<open>Lines 31 to 34 and the dictionary of lines 39 to 46: the name and the occurrence
  that line \<open>i\<close> contributes under section \<open>current_section\<close>, if it is a table row.\<close>

definition parse_row :: "nat \<Rightarrow> string \<Rightarrow> string \<Rightarrow> (string \<times> entry) option" where
  "parse_row i current_section line =
     (case row_match line of
        None \<Rightarrow> None
      | Some (num, name, cost, effect, unlock) \<Rightarrow>
          Some (str_strip name,
                \<lparr>e_line = i, e_section = current_section, e_num = num, e_cost = cost,
                 e_effect = str_strip effect, e_unlock = str_strip unlock\<rparr>))"

text \<open>Lines 36 to 46: a name not yet in \<open>joker_details\<close> is entered with an empty list,
  then the occurrence is appended to the list of the name. The lookup always finds the
  name, which the lines before have entered (\<open>add_row_bound\<close> below).\<close>

definition add_row :: "(string \<times> entry list) list \<Rightarrow> string \<Rightarrow> entry \<Rightarrow> (string \<times> entry list) list" where
  "add_row jd name e =
     (let jd1 = (if name \<notin> set (map fst jd) then AList.update name [] jd else jd)
      in case map_of jd1 name of
           None \<Rightarrow> jd1
         | Some occurrences \<Rightarrow> AList.update name (occurrences @ [e]) jd1)"

text \<open>The loop of lines 21 to 46 over \<open>enumerate(lines, 1)\<close>.\<close>

fun scan_lines :: "nat \<Rightarrow> string \<Rightarrow> (string \<times> entry list) list \<Rightarrow> string list
                   \<Rightarrow> (string \<times> entry list) list" where
  "scan_lines i current_section jd [] = jd"
| "scan_lines i current_section jd (line # rest) =
     (let cur = next_section current_section line
      in case parse_row i cur line of
           None \<Rightarrow> scan_lines (i + 1) cur jd rest
         | Some (name, e) \<Rightarrow> scan_lines (i + 1) cur (add_row jd name e) rest)"

definition joker_details :: "string list \<Rightarrow> (string \<times> entry list) list" where
  "joker_details lines = scan_lines 1 ''Unknown'' [] lines"

text \<open>Line 49: the names with more than one occurrence, in the order of
  \<open>joker_details\<close>.\<close>

definition duplicates :: "(string \<times> entry list) list \<Rightarrow> (string \<times> entry list) list" where
  "duplicates jd = filter (\<lambda>(name, details). length details > 1) jd"

text \<open>\<open>find_missing.py\<close> keeps one dictionary per name (lines 19 to 30): a later row of
  the same name overwrites the earlier one.\<close>

record details =
  d_num :: string
  d_cost :: string
  d_effect :: string
  d_unlock :: string

fun scan_lines_fm :: "(string \<times> details) list \<Rightarrow> string list \<Rightarrow> (string \<times> details) list" where
  "scan_lines_fm jd [] = jd"
| "scan_lines_fm jd (line # rest) =
     (case row_match line of
        None \<Rightarrow> scan_lines_fm jd rest
      | Some (num, name, cost, effect, unlock) \<Rightarrow>
          scan_lines_fm
            (AList.update (str_strip name)
               \<lparr>d_num = num, d_cost = cost, d_effect = str_strip effect,
                d_unlock = str_strip unlock\<rparr> jd) rest)"

definition joker_details_fm :: "string list \<Rightarrow> (string \<times> details) list" where
  "joker_details_fm lines = scan_lines_fm [] lines"

section \<open>Reconciliation\<close>

text \<open>Lines 77 to 81 of \<open>missing_jokers_analysis.py\<close>: the loop over the keys of
  \<open>joker_details\<close>. Each round reads \<open>implemented_set\<close>.\<close>

fun missing_names :: "string set option \<Rightarrow> string list \<Rightarrow> string list \<Rightarrow> error + string list" where
  "missing_names impl_set missing [] = Inr missing"
| "missing_names impl_set missing (name # rest) =
     (let camel = to_camel_case name
      in case impl_set of
           None \<Rightarrow> Inl (NameError ''implemented_set'')
         | Some s \<Rightarrow>
             if str_lower camel \<notin> s then missing_names impl_set (missing @ [name]) rest
             else missing_names impl_set missing rest)"

text \<open>Lines 58 to 65 of \<open>find_missing.py\<close>: the same loop on the keys of
  \<open>implemented_lower\<close>; it also fills \<open>spec_to_impl\<close>.\<close>

fun missing_names_fm :: "(string \<times> string) list option \<Rightarrow> string list \<times> (string \<times> string) list
                         \<Rightarrow> string list \<Rightarrow> error + string list \<times> (string \<times> string) list" where
  "missing_names_fm impl_lower (missing, spec_to_impl) [] = Inr (missing, spec_to_impl)"
| "missing_names_fm impl_lower (missing, spec_to_impl) (orig_name # rest) =
     (let camel = to_camel_case orig_name
      in case impl_lower of
           None \<Rightarrow> Inl (NameError ''implemented_lower'')
         | Some d \<Rightarrow>
             missing_names_fm impl_lower
               (if str_lower camel \<notin> set (map fst d) then missing @ [orig_name] else missing,
                AList.update orig_name camel spec_to_impl) rest)"

section \<open>The two runs\<close>

text \<open>
  A run takes the text of \<open>core/src/joker.rs\<close> and the lines of \<open>JOKERS.md\<close>, and
  gives back the lines it has printed and either the error that stopped it or what it
  has computed. Both runs are followed through their summary counts (line 90 of
  \<open>missing_jokers_analysis.py\<close>, line 69 of \<open>find_missing.py\<close>); the listings printed
  after them only format values that exist by then.
\<close>

record analysis =
  r_joker_details :: "(string \<times> entry list) list"
  r_duplicates :: "(string \<times> entry list) list"
  r_missing_names :: "string list"
  implemented_count :: nat
  canonical_unique_count :: nat
  duplicate_count :: nat
  missing_count :: nat

definition banner :: "string list" where
  "banner = [replicate 80 (CHR ''=''), ''MISSING JOKERS ANALYSIS'', replicate 80 (CHR ''=''), []]"

definition missing_jokers_analysis :: "string \<Rightarrow> string list \<Rightarrow> string list \<times> (error + analysis)" where
  "missing_jokers_analysis content lines =
     (let jd = joker_details lines;
          dups = duplicates jd
      in case missing_names (implemented_set content) [] (map fst jd) of
           Inl err \<Rightarrow> ([], Inl err)
         | Inr missing \<Rightarrow>
             (case implemented content of
                None \<Rightarrow> (banner, Inl (NameError ''implemented''))
              | Some impl \<Rightarrow>
                  (banner @
                   [''Total implemented: '' @ str_nat (length impl),
                    ''Total unique in JOKERS.md: '' @ str_nat (length jd),
                    ''Duplicates in JOKERS.md: '' @ str_nat (length dups),
                    ''Missing from implementation: '' @ str_nat (length missing)],
                   Inr \<lparr>r_joker_details = jd, r_duplicates = dups, r_missing_names = missing,
                        implemented_count = length impl, canonical_unique_count = length jd,
                        duplicate_count = length dups, missing_count = length missing\<rparr>)))"

record summary =
  s_missing_names :: "string list"
  s_total :: nat
  s_implemented :: nat
  s_missing :: nat

definition find_missing :: "string \<Rightarrow> string list \<Rightarrow> string list \<times> (error + summary)" where
  "find_missing content lines =
     (let jd = joker_details_fm lines
      in case missing_names_fm (implemented_lower content) ([], []) (map fst jd) of
           Inl err \<Rightarrow> ([], Inl err)
         | Inr (missing, spec_to_impl) \<Rightarrow>
             (case implemented content of
                None \<Rightarrow> ([''Total in JOKERS.md: '' @ str_nat (length jd)],
                          Inl (NameError ''implemented''))
              | Some impl \<Rightarrow>
                  ([''Total in JOKERS.md: '' @ str_nat (length jd),
                    ''Total implemented: '' @ str_nat (length impl),
                    ''Missing: '' @ str_nat (length missing)],
                   Inr \<lparr>s_missing_names = missing, s_total = length jd,
                        s_implemented = length impl, s_missing = length missing\<rparr>)))"

section \<open>The specification's notions\<close>

text \<open>The definitions of this section follow the words of the specification; the
  theorems compare them with the scripts.\<close>








text \<open>The ASCII punctuation characters (\<open>string.punctuation\<close> of Python).\<close>

definition is_punctuation :: "char \<Rightarrow> bool" where
  "is_punctuation c =
     (c \<in> set (''!#$%&()*+,-./:;<=>?@[]^_{|}~'' @ [CHR 0x22, CHR 0x27, CHR 0x5C, CHR 0x60]))"

text \<open>The entry sequence: the table rows of the document in document order, each with
  its display name and the occurrence the loop records for it.\<close>

fun entries_from :: "nat \<Rightarrow> string \<Rightarrow> string list \<Rightarrow> (string \<times> entry) list" where
  "entries_from i current_section [] = []"
| "entries_from i current_section (line # rest) =
     (let cur = next_section current_section line
      in case parse_row i cur line of
           None \<Rightarrow> entries_from (i + 1) cur rest
         | Some row \<Rightarrow> row # entries_from (i + 1) cur rest)"

definition entries :: "string list \<Rightarrow> (string \<times> entry) list" where
  "entries lines = entries_from 1 ''Unknown'' lines"

definition display_names :: "string list \<Rightarrow> string list" where
  "display_names lines = map fst (entries lines)"

text \<open>The distinct elements of a list in first-seen order, and the occurrences of a name
  in document order.\<close>

definition first_seen :: "'a list \<Rightarrow> 'a list" where
  "first_seen xs = rev (remdups (rev xs))"

definition occurrences_of :: "string \<Rightarrow> (string \<times> entry) list \<Rightarrow> entry list" where
  "occurrences_of name es = map snd (filter (\<lambda>row. fst row = name) es)"

text \<open>The four findings about a display name, in the order of the specification: fully
  matched, missing only, duplicated only, missing and duplicated.\<close>

definition finding_cases :: "analysis \<Rightarrow> string \<Rightarrow> bool list" where
  "finding_cases r name =
     (let m = name \<in> set (r_missing_names r);
          d = name \<in> set (map fst (r_duplicates r))
      in [\<not> m \<and> \<not> d, m \<and> \<not> d, \<not> m \<and> d, m \<and> d])"

section \<open>The canonicalizer: overrides\<close>

lemma general_rule_on_keys:
  "general_rule ''Joker'' = ''Joker''"
  "general_rule ''8 Ball'' = ''8Ball''"
  "general_rule ''Driver's License'' = ''DriversLicense''"
  "general_rule [CHR ''S'', CHR 0xC3, CHR 0x83, CHR 0xC2, CHR 0xA9, CHR ''a'', CHR ''n'', CHR ''c'', CHR ''e'']
     = [CHR ''S'', CHR 0xC3, CHR 0x83, CHR 0xC2, CHR 0xA9, CHR ''a'', CHR ''n'', CHR ''c'', CHR ''e'']"
  by code_simp+

text \<open>
  Claim C1. On each of the nine override keys \<open>to_camel_case\<close> returns the identifier
  the table maps the key to. The general rule is not consulted: for the keys \<open>Joker\<close>,
  \<open>8 Ball\<close>, \<open>Driver's License\<close> and the wrongly decoded name it would give another
  identifier than the one returned.
\<close>

theorem override_precedence:
  "to_camel_case ''Joker'' = ''TheJoker''
   \<and> to_camel_case ''Oops! All 6s'' = ''OopsAll6s''
   \<and> to_camel_case ''8 Ball'' = ''EightBall''
   \<and> to_camel_case ''Mail-In Rebate'' = ''MailInRebate''
   \<and> to_camel_case ''Riff-Raff'' = ''RiffRaff''
   \<and> to_camel_case ''Walkie Talkie'' = ''WalkieTalkie''
   \<and> to_camel_case [CHR ''S'', CHR 0xC3, CHR 0x83, CHR 0xC2, CHR 0xA9, CHR ''a'', CHR ''n'', CHR ''c'', CHR ''e'']
       = ''Seance''
   \<and> to_camel_case ''Sock and Buskin'' = ''SockAndBuskin''
   \<and> to_camel_case ''Driver's License'' = ''DriverLicense''
   \<and> general_rule ''Joker'' \<noteq> ''TheJoker''
   \<and> general_rule ''8 Ball'' \<noteq> ''EightBall''
   \<and> general_rule ''Driver's License'' \<noteq> ''DriverLicense''
   \<and> general_rule [CHR ''S'', CHR 0xC3, CHR 0x83, CHR 0xC2, CHR 0xA9, CHR ''a'', CHR ''n'', CHR ''c'', CHR ''e'']
       \<noteq> ''Seance''"
  by (simp add: to_camel_case_def general_rule_on_keys)

section \<open>Characters and words\<close>

declare str_split.simps [simp del]
declare str_nat.simps [simp del]

lemma upper_char_cases: "upper_char c = c \<or> (islower c \<and> isupper (upper_char c))"
proof (cases "map_of (zip ascii_lowercase ascii_uppercase) c")
  case None
  then show ?thesis by (simp add: upper_char_def)
next
  case (Some d)
  then have "(c, d) \<in> set (zip ascii_lowercase ascii_uppercase)" by (rule map_of_SomeD)
  then have "c \<in> set ascii_lowercase" "d \<in> set ascii_uppercase"
    by (auto dest: set_zip_leftD set_zip_rightD)
  with Some show ?thesis by (simp add: upper_char_def islower_def isupper_def)
qed

lemma lower_char_cases: "lower_char c = c \<or> (isupper c \<and> islower (lower_char c))"
proof (cases "map_of (zip ascii_uppercase ascii_lowercase) c")
  case None
  then show ?thesis by (simp add: lower_char_def)
next
  case (Some d)
  then have "(c, d) \<in> set (zip ascii_uppercase ascii_lowercase)" by (rule map_of_SomeD)
  then have "c \<in> set ascii_uppercase" "d \<in> set ascii_lowercase"
    by (auto dest: set_zip_leftD set_zip_rightD)
  with Some show ?thesis by (simp add: lower_char_def islower_def isupper_def)
qed

lemma isupper_plain:
  "isupper c \<Longrightarrow> \<not> isspace c \<and> \<not> isdigit c \<and> c \<noteq> CHR 0x27 \<and> c \<noteq> CHR ''!'' \<and> c \<noteq> CHR ''-''"
  by (auto simp: isupper_def ascii_uppercase_def isspace_def isdigit_def digits_def)

lemma islower_plain:
  "islower c \<Longrightarrow> \<not> isspace c \<and> \<not> isdigit c \<and> c \<noteq> CHR 0x27 \<and> c \<noteq> CHR ''!'' \<and> c \<noteq> CHR ''-''"
  by (auto simp: islower_def ascii_lowercase_def isspace_def isdigit_def digits_def)


lemma isspace_upper_char [simp]: "isspace (upper_char c) = isspace c"
  using upper_char_cases [of c] isupper_plain islower_plain by metis

lemma isspace_lower_char [simp]: "isspace (lower_char c) = isspace c"
  using lower_char_cases [of c] isupper_plain islower_plain by metis

lemma isdigit_upper_char [simp]: "isdigit (upper_char c) = isdigit c"
  using upper_char_cases [of c] isupper_plain islower_plain by metis

lemma isdigit_lower_char [simp]: "isdigit (lower_char c) = isdigit c"
  using lower_char_cases [of c] isupper_plain islower_plain by metis




lemma is_punctuation_plain:
  "is_punctuation c \<Longrightarrow> \<not> isupper c \<and> \<not> islower c \<and> \<not> isspace c \<and> \<not> isdigit c"
  by (auto simp: is_punctuation_def islower_def ascii_lowercase_def isupper_def
      ascii_uppercase_def isspace_def isdigit_def digits_def)

lemma is_punctuation_upper_char [simp]: "is_punctuation (upper_char c) = is_punctuation c"
  using upper_char_cases [of c] is_punctuation_plain by metis

lemma is_punctuation_lower_char [simp]: "is_punctuation (lower_char c) = is_punctuation c"
  using lower_char_cases [of c] is_punctuation_plain by metis








subsection \<open>Replacing and splitting\<close>












section \<open>The canonicalizer: shape of the identifier\<close>















section \<open>The implemented identifiers\<close>

lemma findall_ident_token:
  "t \<in> set (findall_ident s) \<Longrightarrow> \<exists>c cs. t = c # cs \<and> isupper c \<and> (\<forall>x \<in> set cs. isalnum x)"
proof (induction s rule: findall_ident.induct)
  case 1
  then show ?case by simp
next
  case (2 c cs)
  show ?case
  proof (cases "isupper c")
    case True
    with 2(3) have "t = c # takeWhile isalnum cs \<or> t \<in> set (findall_ident (dropWhile isalnum cs))"
      by simp
    then show ?thesis
    proof
      assume "t = c # takeWhile isalnum cs"
      with True show ?thesis by (auto dest: set_takeWhileD)
    next
      assume "t \<in> set (findall_ident (dropWhile isalnum cs))"
      with 2(1) True show ?thesis by simp
    qed
  next
    case False
    with 2(2,3) show ?thesis by simp
  qed
qed

lemma implemented_Some:
  "implemented content = Some impl \<Longrightarrow>
     \<exists>macro_content. macro_search content = Some macro_content
        \<and> impl = filter (\<lambda>j. j \<notin> set stop_list) (findall_ident macro_content)"
  by (auto simp: implemented_def split: option.splits)

text \<open>
  Claim C8. Every identifier of the implemented list begins with an upper-case ASCII
  letter and holds only ASCII letters and digits. The list is what the token pattern
  finds in the macro body, without the tokens that are entries of the stop-list; the
  comparison is the exact one of \<open>not in\<close>, so none of the stop-list entries and none of
  the six words \<open>missing\<close>, \<open>jokers\<close>, \<open>adding\<close>, \<open>to\<close>, \<open>reach\<close>, \<open>total\<close> is ever an
  implemented identifier.
\<close>

theorem implemented_identifiers:
  assumes "implemented content = Some impl"
  shows "(\<forall>j \<in> set impl. \<exists>c cs. j = c # cs \<and> isupper c \<and> (\<forall>x \<in> set cs. isalnum x))
     \<and> (\<exists>macro_content. macro_search content = Some macro_content
           \<and> set impl = set (findall_ident macro_content) - set stop_list)
     \<and> (\<forall>w \<in> set stop_list. w \<notin> set impl)
     \<and> (\<forall>w \<in> set [''missing'', ''jokers'', ''adding'', ''to'', ''reach'', ''total''].
            w \<notin> set impl)"
proof -
  from assms obtain macro_content where m: "macro_search content = Some macro_content"
    and i: "impl = filter (\<lambda>j. j \<notin> set stop_list) (findall_ident macro_content)"
    using implemented_Some by blast
  have shape: "\<forall>j \<in> set impl. \<exists>c cs. j = c # cs \<and> isupper c \<and> (\<forall>x \<in> set cs. isalnum x)"
    using i findall_ident_token by auto
  have diff: "set impl = set (findall_ident macro_content) - set stop_list"
    using i by auto
  have stop: "\<forall>w \<in> set stop_list. w \<notin> set impl"
    using diff by blast
  have "\<not> isupper (CHR ''m'')" "\<not> isupper (CHR ''j'')" "\<not> isupper (CHR ''a'')"
       "\<not> isupper (CHR ''t'')" "\<not> isupper (CHR ''r'')"
    by (simp_all add: isupper_def ascii_uppercase_def)
  with shape have low: "\<forall>w \<in> set [''missing'', ''jokers'', ''adding'', ''to'', ''reach'', ''total''].
            w \<notin> set impl"
    by auto
  from shape m diff stop low show ?thesis by blast
qed

theorem implemented_identifiers_witness:
  "implemented ''x make_jokers!(TheJoker, // Missing jokers: adding 2 to reach total; Cloud9);''
     = Some [''TheJoker'', ''Cloud9'']
   \<and> ''Missing'' \<notin> set [''TheJoker'', ''Cloud9'']
   \<and> macro_search ''x make_jokers!(TheJoker, // Missing jokers: adding 2 to reach total; Cloud9);''
       = Some ''TheJoker, // Missing jokers: adding 2 to reach total; Cloud9''"
proof -
  have h: "implemented ''x make_jokers!(TheJoker, // Missing jokers: adding 2 to reach total; Cloud9);''
     = Some [''TheJoker'', ''Cloud9'']"
    by code_simp
  have m: "macro_search ''x make_jokers!(TheJoker, // Missing jokers: adding 2 to reach total; Cloud9);''
       = Some ''TheJoker, // Missing jokers: adding 2 to reach total; Cloud9''"
    by code_simp
  have "''Missing'' \<in> set stop_list" by (simp add: stop_list_def)
  with implemented_identifiers [OF h] have "''Missing'' \<notin> set [''TheJoker'', ''Cloud9'']"
    by blast
  with h m show ?thesis by (intro conjI)
qed

text \<open>The stop-list is compared letter for letter: a capitalized \<open>To\<close> or \<open>Total\<close> in the
  macro body is no entry of it and stays in the list.\<close>

lemma stop_list_exact:
  "implemented ''make_jokers!(Joker, // Total: To do);'' = Some [''Joker'', ''Total'', ''To'']"
  by code_simp

section \<open>Grouping the rows\<close>

lemma set_first_seen [simp]: "set (first_seen xs) = set xs"
  by (simp add: first_seen_def)

lemma distinct_first_seen [simp]: "distinct (first_seen xs)"
  by (simp add: first_seen_def)

lemma first_seen_Nil [simp]: "first_seen [] = []"
  by (simp add: first_seen_def)

lemma first_seen_snoc:
  "first_seen (xs @ [x]) = (if x \<in> set xs then first_seen xs else first_seen xs @ [x])"
  by (simp add: first_seen_def)

lemma remdups_snoc: "remdups (ys @ [x]) = filter (\<lambda>y. y \<noteq> x) (remdups ys) @ [x]"
  by (induction ys) auto

text \<open>First-seen order: the head of the list comes first, and the other elements follow
  in the first-seen order of the tail.\<close>

lemma first_seen_Cons: "first_seen (x # xs) = x # filter (\<lambda>y. y \<noteq> x) (first_seen xs)"
  by (simp add: first_seen_def remdups_snoc rev_filter)

lemma length_first_seen: "length (first_seen xs) = card (set xs)"
  using distinct_card [of "first_seen xs"] by simp

lemma occurrences_of_snoc:
  "occurrences_of m (es @ [(n, e)]) = occurrences_of m es @ (if m = n then [e] else [])"
  by (simp add: occurrences_of_def)

lemma occurrences_of_absent: "n \<notin> fst ` set es \<Longrightarrow> occurrences_of n es = []"
  by (induction es) (auto simp: occurrences_of_def)

lemma length_occurrences_of: "length (occurrences_of n es) = count_list (map fst es) n"
  by (induction es) (auto simp: occurrences_of_def)

lemma occurrences_of_member: "e \<in> set (occurrences_of n es) \<longleftrightarrow> (n, e) \<in> set es"
  by (force simp: occurrences_of_def)

lemma update_absent: "k \<notin> fst ` set al \<Longrightarrow> AList.update k v al = al @ [(k, v)]"
  by (induction al) auto

lemma update_last: "k \<notin> fst ` set al \<Longrightarrow> AList.update k v (al @ [(k, w)]) = al @ [(k, v)]"
  by (induction al) auto

lemma update_keyed:
  "distinct ks \<Longrightarrow> n \<in> set ks \<Longrightarrow>
     AList.update n v (map (\<lambda>m. (m, f m)) ks) = map (\<lambda>m. (m, if m = n then v else f m)) ks"
  by (induction ks) auto

lemma map_of_keyed: "map_of (map (\<lambda>m. (m, f m)) ks) n = (if n \<in> set ks then Some (f n) else None)"
  by (induction ks) auto

text \<open>The lookup of lines 39 to 46 never misses.\<close>

lemma add_row_bound:
  "map_of (if name \<notin> set (map fst jd) then AList.update name [] jd else jd) name \<noteq> None"
  by (simp add: map_of_eq_None_iff dom_update)

lemma add_row_keyed:
  assumes "distinct ks"
  shows "add_row (map (\<lambda>m. (m, f m)) ks) n e =
           (if n \<in> set ks then map (\<lambda>m. (m, if m = n then f n @ [e] else f m)) ks
            else map (\<lambda>m. (m, f m)) ks @ [(n, [e])])"
proof (cases "n \<in> set ks")
  case True
  then have "add_row (map (\<lambda>m. (m, f m)) ks) n e
               = AList.update n (f n @ [e]) (map (\<lambda>m. (m, f m)) ks)"
    by (simp add: add_row_def map_of_keyed comp_def)
  with True assms show ?thesis by (simp add: update_keyed)
next
  case False
  let ?jd = "map (\<lambda>m. (m, f m)) ks"
  have absent: "n \<notin> fst ` set ?jd" using False by auto
  then have jd1: "AList.update n [] ?jd = ?jd @ [(n, [])]" by (rule update_absent)
  have "map_of (?jd @ [(n, [])]) n = Some []"
    using False by (simp add: map_of_keyed map_add_def)
  then have "add_row ?jd n e = AList.update n [e] (?jd @ [(n, [])])"
    using False by (simp add: add_row_def jd1 comp_def)
  also have "\<dots> = ?jd @ [(n, [e])]" using absent by (rule update_last)
  finally show ?thesis using False by simp
qed

lemma fold_add_row:
  "fold (\<lambda>(n, e) jd. add_row jd n e) es []
     = map (\<lambda>n. (n, occurrences_of n es)) (first_seen (map fst es))"
proof (induction es rule: rev_induct)
  case Nil
  then show ?case by simp
next
  case (snoc row es)
  obtain n e where row: "row = (n, e)" by (cases row)
  let ?ks = "first_seen (map fst es)"
  have step: "fold (\<lambda>(n, e) jd. add_row jd n e) (es @ [row]) []
          = add_row (map (\<lambda>m. (m, occurrences_of m es)) ?ks) n e"
    using snoc row by simp
  show ?case
  proof (cases "n \<in> set (map fst es)")
    case True
    then have "add_row (map (\<lambda>m. (m, occurrences_of m es)) ?ks) n e
        = map (\<lambda>m. (m, if m = n then occurrences_of n es @ [e] else occurrences_of m es)) ?ks"
      by (simp add: add_row_keyed)
    also have "\<dots> = map (\<lambda>m. (m, occurrences_of m (es @ [(n, e)]))) ?ks"
      by (simp add: occurrences_of_snoc)
    finally show ?thesis using True step row by (simp add: first_seen_snoc)
  next
    case False
    then have "add_row (map (\<lambda>m. (m, occurrences_of m es)) ?ks) n e
        = map (\<lambda>m. (m, occurrences_of m es)) ?ks @ [(n, [e])]"
      by (simp add: add_row_keyed)
    also have "\<dots> = map (\<lambda>m. (m, occurrences_of m (es @ [(n, e)]))) (?ks @ [n])"
      using False by (auto simp: occurrences_of_snoc occurrences_of_absent)
    finally show ?thesis using False step row by (simp add: first_seen_snoc)
  qed
qed

lemma scan_lines_fold:
  "scan_lines i cur jd ls = fold (\<lambda>(n, e) jd. add_row jd n e) (entries_from i cur ls) jd"
  by (induction ls arbitrary: i cur jd) (auto simp: Let_def split: option.splits)

text \<open>\<open>joker_details\<close> after the loop: the distinct display names in first-seen order, each
  with its occurrences in document order.\<close>

lemma joker_details_grouped:
  "joker_details lines
     = map (\<lambda>n. (n, occurrences_of n (entries lines))) (first_seen (display_names lines))"
  by (simp add: joker_details_def entries_def display_names_def scan_lines_fold fold_add_row)

lemma joker_details_keys: "map fst (joker_details lines) = first_seen (display_names lines)"
  by (simp add: joker_details_grouped comp_def)

lemma duplicates_grouped:
  "duplicates (joker_details lines)
     = map (\<lambda>n. (n, occurrences_of n (entries lines)))
         (filter (\<lambda>n. 2 \<le> count_list (display_names lines) n) (first_seen (display_names lines)))"
proof -
  have "(1 < length (occurrences_of n (entries lines))) = (2 \<le> count_list (display_names lines) n)"
    for n by (auto simp: length_occurrences_of display_names_def)
  then show ?thesis
    by (simp add: duplicates_def joker_details_grouped filter_map comp_def)
qed

text \<open>Every table row has a line number of its own.\<close>

lemma entries_from_lines: "(n, e) \<in> set (entries_from i cur ls) \<Longrightarrow> i \<le> e_line e"
proof (induction ls arbitrary: i cur)
  case Nil
  then show ?case by simp
next
  case (Cons line ls)
  show ?case
  proof (cases "parse_row i (next_section cur line) line")
    case None
    with Cons.prems have "(n, e) \<in> set (entries_from (i + 1) (next_section cur line) ls)"
      by (simp add: Let_def)
    then have "i + 1 \<le> e_line e" by (rule Cons.IH)
    then show ?thesis by simp
  next
    case (Some row)
    with Cons.prems have "(n, e) = row \<or> (n, e) \<in> set (entries_from (i + 1) (next_section cur line) ls)"
      by (auto simp: Let_def)
    then show ?thesis
    proof
      assume "(n, e) = row"
      with Some show ?thesis by (auto simp: parse_row_def split: option.splits)
    next
      assume "(n, e) \<in> set (entries_from (i + 1) (next_section cur line) ls)"
      then have "i + 1 \<le> e_line e" by (rule Cons.IH)
      then show ?thesis by simp
    qed
  qed
qed

lemma entries_from_distinct: "distinct (map (\<lambda>row. e_line (snd row)) (entries_from i cur ls))"
proof (induction ls arbitrary: i cur)
  case Nil
  then show ?case by simp
next
  case (Cons line ls)
  show ?case
  proof (cases "parse_row i (next_section cur line) line")
    case None
    then show ?thesis using Cons.IH by (simp add: Let_def)
  next
    case (Some row)
    then have "e_line (snd row) = i" by (auto simp: parse_row_def split: option.splits)
    moreover have "i \<notin> (\<lambda>row. e_line (snd row)) ` set (entries_from (i + 1) (next_section cur line) ls)"
      using entries_from_lines [of _ _ "i + 1" "next_section cur line" ls] by fastforce
    ultimately show ?thesis using Some Cons.IH by (simp add: Let_def)
  qed
qed

lemma entries_one_name:
  assumes "(n1, e) \<in> set (entries lines)" and "(n2, e) \<in> set (entries lines)"
  shows "n1 = n2"
proof -
  have "inj_on (\<lambda>row. e_line (snd row)) (set (entries lines))"
    using entries_from_distinct [of 1 "''Unknown''" lines]
    by (simp add: entries_def distinct_map)
  from inj_onD [OF this _ assms] show ?thesis by simp
qed

section \<open>The missing names and the run\<close>

lemma missing_names_Some:
  "missing_names (Some s) acc ns
     = Inr (acc @ filter (\<lambda>n. str_lower (to_camel_case n) \<notin> s) ns)"
  by (induction ns arbitrary: acc) (simp_all add: Let_def)

lemma missing_names_None:
  "missing_names None acc ns = (if ns = [] then Inr acc else Inl (NameError ''implemented_set''))"
  by (cases ns) (simp_all add: Let_def)

lemma analysis_completed:
  "snd (missing_jokers_analysis content lines) = Inr r \<longleftrightarrow>
     (\<exists>impl. implemented content = Some impl
        \<and> r = \<lparr>r_joker_details = joker_details lines,
               r_duplicates = duplicates (joker_details lines),
               r_missing_names = filter (\<lambda>n. str_lower (to_camel_case n) \<notin> set (map str_lower impl))
                                   (map fst (joker_details lines)),
               implemented_count = length impl,
               canonical_unique_count = length (joker_details lines),
               duplicate_count = length (duplicates (joker_details lines)),
               missing_count = length (filter (\<lambda>n. str_lower (to_camel_case n) \<notin> set (map str_lower impl))
                                   (map fst (joker_details lines)))\<rparr>)"
proof (cases "implemented content")
  case None
  then show ?thesis
    by (simp add: missing_jokers_analysis_def implemented_set_def missing_names_None Let_def)
next
  case (Some impl)
  then show ?thesis
    by (auto simp: missing_jokers_analysis_def implemented_set_def missing_names_Some Let_def)
qed

lemma analysis_fields:
  assumes "snd (missing_jokers_analysis content lines) = Inr r"
    and "implemented content = Some impl"
  shows "r_joker_details r = joker_details lines"
    and "r_duplicates r = duplicates (joker_details lines)"
    and "r_missing_names r = filter (\<lambda>n. str_lower (to_camel_case n) \<notin> set (map str_lower impl))
                               (first_seen (display_names lines))"
    and "implemented_count r = length impl"
    and "canonical_unique_count r = length (first_seen (display_names lines))"
    and "duplicate_count r = length (r_duplicates r)"
    and "missing_count r = length (r_missing_names r)"
  using assms by (auto simp: analysis_completed joker_details_keys [symmetric])

lemma count_list_distinct: "distinct xs \<Longrightarrow> count_list xs x = (if x \<in> set xs then 1 else 0)"
  by (induction xs) auto

lemma count_first_seen: "x \<in> set xs \<Longrightarrow> count_list (first_seen xs) x = 1"
  by (simp add: count_list_distinct)

lemma count_list_positive: "x \<in> set xs \<Longrightarrow> 1 \<le> count_list xs x"
  by (induction xs) auto

lemma finding_cases_one: "count_list (finding_cases r name) True = 1"
  by (auto simp: finding_cases_def Let_def)

section \<open>The missing set\<close>

text \<open>
  Claim C3. When the run of \<open>missing_jokers_analysis.py\<close> completes, the set it tests
  against is the set of the lowercased implemented identifiers; a display name of the
  catalog is in \<open>missing_names\<close> if and only if the lowercase form of its canonical
  identifier is not in that set, and nothing else is in \<open>missing_names\<close>, which lists no
  name twice. So a name whose canonical identifier and an implemented identifier have
  the same lowercase form (they differ in letter case at most) is never missing.
\<close>

theorem missing_iff_not_implemented:
  assumes "snd (missing_jokers_analysis content lines) = Inr r"
    and "implemented content = Some impl"
  shows "implemented_set content = Some (str_lower ` set impl)
       \<and> distinct (r_missing_names r)
       \<and> (\<forall>name. name \<in> set (r_missing_names r) \<longleftrightarrow>
                    name \<in> set (display_names lines)
                  \<and> str_lower (to_camel_case name) \<notin> str_lower ` set impl)
       \<and> (\<forall>name j. name \<in> set (display_names lines) \<longrightarrow> j \<in> set impl \<longrightarrow>
                    str_lower (to_camel_case name) = str_lower j \<longrightarrow>
                    name \<notin> set (r_missing_names r))"
proof -
  have m: "r_missing_names r = filter (\<lambda>n. str_lower (to_camel_case n) \<notin> set (map str_lower impl))
                                 (first_seen (display_names lines))"
    using assms by (rule analysis_fields)
  have "implemented_set content = Some (str_lower ` set impl)"
    using assms(2) by (simp add: implemented_set_def)
  moreover have "distinct (r_missing_names r)" by (simp add: m)
  moreover have "\<forall>name. name \<in> set (r_missing_names r) \<longleftrightarrow>
                    name \<in> set (display_names lines)
                  \<and> str_lower (to_camel_case name) \<notin> str_lower ` set impl"
    by (simp add: m)
  moreover have "\<forall>name j. name \<in> set (display_names lines) \<longrightarrow> j \<in> set impl \<longrightarrow>
                    str_lower (to_camel_case name) = str_lower j \<longrightarrow>
                    name \<notin> set (r_missing_names r)"
    by (simp add: m)
  ultimately show ?thesis by blast
qed

theorem missing_iff_not_implemented_witness:
  "implemented ''make_jokers!(TheJoker, CLOUD9);'' = Some [''TheJoker'', ''CLOUD9'']
   \<and> display_names [''| 1 | Joker | $2 | e | u |'', ''| 2 | Cloud 9 | $3 | e | u |'',
                     ''| 3 | Mr. Bones | $5 | e | u |'']
       = [''Joker'', ''Cloud 9'', ''Mr. Bones'']
   \<and> to_camel_case ''Cloud 9'' = ''Cloud9''
   \<and> snd (missing_jokers_analysis ''make_jokers!(TheJoker, CLOUD9);''
            [''| 1 | Joker | $2 | e | u |'', ''| 2 | Cloud 9 | $3 | e | u |'',
             ''| 3 | Mr. Bones | $5 | e | u |''])
       = Inr \<lparr>r_joker_details =
                [(''Joker'', [\<lparr>e_line = 1, e_section = ''Unknown'', e_num = ''1'', e_cost = ''2'',
                               e_effect = ''e'', e_unlock = ''u''\<rparr>]),
                 (''Cloud 9'', [\<lparr>e_line = 2, e_section = ''Unknown'', e_num = ''2'', e_cost = ''3'',
                                 e_effect = ''e'', e_unlock = ''u''\<rparr>]),
                 (''Mr. Bones'', [\<lparr>e_line = 3, e_section = ''Unknown'', e_num = ''3'', e_cost = ''5'',
                                   e_effect = ''e'', e_unlock = ''u''\<rparr>])],
              r_duplicates = [], r_missing_names = [''Mr. Bones''],
              implemented_count = 2, canonical_unique_count = 3,
              duplicate_count = 0, missing_count = 1\<rparr>
   \<and> distinct [''Mr. Bones'']
   \<and> ''Cloud 9'' \<notin> set [''Mr. Bones'']"
proof -
  let ?C = "''make_jokers!(TheJoker, CLOUD9);''"
  let ?L = "[''| 1 | Joker | $2 | e | u |'', ''| 2 | Cloud 9 | $3 | e | u |'',
             ''| 3 | Mr. Bones | $5 | e | u |'']"
  have impl: "implemented ?C = Some [''TheJoker'', ''CLOUD9'']" by code_simp
  have names: "display_names ?L = [''Joker'', ''Cloud 9'', ''Mr. Bones'']" by code_simp
  have camel: "to_camel_case ''Cloud 9'' = ''Cloud9''" by code_simp
  have low: "str_lower (to_camel_case ''Cloud 9'') = str_lower ''CLOUD9''" by code_simp
  have run: "snd (missing_jokers_analysis ?C ?L)
       = Inr \<lparr>r_joker_details =
                [(''Joker'', [\<lparr>e_line = 1, e_section = ''Unknown'', e_num = ''1'', e_cost = ''2'',
                               e_effect = ''e'', e_unlock = ''u''\<rparr>]),
                 (''Cloud 9'', [\<lparr>e_line = 2, e_section = ''Unknown'', e_num = ''2'', e_cost = ''3'',
                                 e_effect = ''e'', e_unlock = ''u''\<rparr>]),
                 (''Mr. Bones'', [\<lparr>e_line = 3, e_section = ''Unknown'', e_num = ''3'', e_cost = ''5'',
                                   e_effect = ''e'', e_unlock = ''u''\<rparr>])],
              r_duplicates = [], r_missing_names = [''Mr. Bones''],
              implemented_count = 2, canonical_unique_count = 3,
              duplicate_count = 0, missing_count = 1\<rparr>"
    by code_simp
  note t = missing_iff_not_implemented [OF run impl]
  from t have d: "distinct [''Mr. Bones'']" by simp
  from t have "\<forall>name j. name \<in> set (display_names ?L) \<longrightarrow> j \<in> set [''TheJoker'', ''CLOUD9''] \<longrightarrow>
                    str_lower (to_camel_case name) = str_lower j \<longrightarrow> name \<notin> set [''Mr. Bones'']"
    by simp
  then have c: "''Cloud 9'' \<notin> set [''Mr. Bones'']"
    using low by (simp only: names) simp
  from impl names camel run d c show ?thesis by (intro conjI)
qed

section \<open>The duplicate groups\<close>

text \<open>
  Claim C4. When the run completes, the names of the duplicate groups are exactly the
  display names that occur at least twice among the entries, in first-seen order; the
  group of a name is the list of its occurrences in document order, each with its line,
  section and row fields, and has at least two members. The number of unique names the
  run reports is the number of distinct display names.
\<close>

theorem duplicate_groups:
  assumes "snd (missing_jokers_analysis content lines) = Inr r"
  shows "map fst (r_duplicates r)
           = filter (\<lambda>n. 2 \<le> count_list (display_names lines) n) (first_seen (display_names lines))
       \<and> (\<forall>n g. (n, g) \<in> set (r_duplicates r) \<longrightarrow>
                  g = occurrences_of n (entries lines) \<and> 2 \<le> length g)
       \<and> canonical_unique_count r = length (first_seen (display_names lines))"
proof -
  from assms obtain impl where impl: "implemented content = Some impl"
    by (auto simp: analysis_completed)
  have d: "r_duplicates r = duplicates (joker_details lines)"
    using assms impl by (rule analysis_fields)
  have c: "canonical_unique_count r = length (first_seen (display_names lines))"
    using assms impl by (rule analysis_fields)
  have "map fst (r_duplicates r)
           = filter (\<lambda>n. 2 \<le> count_list (display_names lines) n) (first_seen (display_names lines))"
    by (simp add: d duplicates_grouped comp_def)
  moreover have "\<forall>n g. (n, g) \<in> set (r_duplicates r) \<longrightarrow>
                  g = occurrences_of n (entries lines) \<and> 2 \<le> length g"
    by (auto simp: d duplicates_grouped length_occurrences_of display_names_def)
  ultimately show ?thesis using c by blast
qed

theorem duplicate_groups_witness:
  "entries [''# Common Jokers'', ''| 1 | Foo | $2 | e | u |'', ''# Rare Jokers'',
            ''| 2 | Bar | $3 | e | u |'', ''# Uncommon Jokers'', ''| 3 | Foo | $4 | e | u |'']
     = [(''Foo'', \<lparr>e_line = 2, e_section = ''Common'', e_num = ''1'', e_cost = ''2'',
                   e_effect = ''e'', e_unlock = ''u''\<rparr>),
        (''Bar'', \<lparr>e_line = 4, e_section = ''Rare'', e_num = ''2'', e_cost = ''3'',
                   e_effect = ''e'', e_unlock = ''u''\<rparr>),
        (''Foo'', \<lparr>e_line = 6, e_section = ''Uncommon'', e_num = ''3'', e_cost = ''4'',
                   e_effect = ''e'', e_unlock = ''u''\<rparr>)]
   \<and> snd (missing_jokers_analysis ''make_jokers!(Foo);''
            [''# Common Jokers'', ''| 1 | Foo | $2 | e | u |'', ''# Rare Jokers'',
             ''| 2 | Bar | $3 | e | u |'', ''# Uncommon Jokers'', ''| 3 | Foo | $4 | e | u |''])
       = Inr \<lparr>r_joker_details =
                [(''Foo'', [\<lparr>e_line = 2, e_section = ''Common'', e_num = ''1'', e_cost = ''2'',
                             e_effect = ''e'', e_unlock = ''u''\<rparr>,
                           \<lparr>e_line = 6, e_section = ''Uncommon'', e_num = ''3'', e_cost = ''4'',
                             e_effect = ''e'', e_unlock = ''u''\<rparr>]),
                 (''Bar'', [\<lparr>e_line = 4, e_section = ''Rare'', e_num = ''2'', e_cost = ''3'',
                             e_effect = ''e'', e_unlock = ''u''\<rparr>])],
              r_duplicates =
                [(''Foo'', [\<lparr>e_line = 2, e_section = ''Common'', e_num = ''1'', e_cost = ''2'',
                             e_effect = ''e'', e_unlock = ''u''\<rparr>,
                           \<lparr>e_line = 6, e_section = ''Uncommon'', e_num = ''3'', e_cost = ''4'',
                             e_effect = ''e'', e_unlock = ''u''\<rparr>])],
              r_missing_names = [''Bar''],
              implemented_count = 1, canonical_unique_count = 2,
              duplicate_count = 1, missing_count = 1\<rparr>
   \<and> filter (\<lambda>n. 2 \<le> count_list (display_names
                [''# Common Jokers'', ''| 1 | Foo | $2 | e | u |'', ''# Rare Jokers'',
                 ''| 2 | Bar | $3 | e | u |'', ''# Uncommon Jokers'', ''| 3 | Foo | $4 | e | u |'']) n)
        (first_seen (display_names
                [''# Common Jokers'', ''| 1 | Foo | $2 | e | u |'', ''# Rare Jokers'',
                 ''| 2 | Bar | $3 | e | u |'', ''# Uncommon Jokers'', ''| 3 | Foo | $4 | e | u |'']))
       = [''Foo'']
   \<and> length (first_seen (display_names
                [''# Common Jokers'', ''| 1 | Foo | $2 | e | u |'', ''# Rare Jokers'',
                 ''| 2 | Bar | $3 | e | u |'', ''# Uncommon Jokers'', ''| 3 | Foo | $4 | e | u |''])) = 2"
proof -
  let ?L = "[''# Common Jokers'', ''| 1 | Foo | $2 | e | u |'', ''# Rare Jokers'',
             ''| 2 | Bar | $3 | e | u |'', ''# Uncommon Jokers'', ''| 3 | Foo | $4 | e | u |'']"
  have es: "entries ?L
     = [(''Foo'', \<lparr>e_line = 2, e_section = ''Common'', e_num = ''1'', e_cost = ''2'',
                   e_effect = ''e'', e_unlock = ''u''\<rparr>),
        (''Bar'', \<lparr>e_line = 4, e_section = ''Rare'', e_num = ''2'', e_cost = ''3'',
                   e_effect = ''e'', e_unlock = ''u''\<rparr>),
        (''Foo'', \<lparr>e_line = 6, e_section = ''Uncommon'', e_num = ''3'', e_cost = ''4'',
                   e_effect = ''e'', e_unlock = ''u''\<rparr>)]"
    by code_simp
  have run: "snd (missing_jokers_analysis ''make_jokers!(Foo);'' ?L)
       = Inr \<lparr>r_joker_details =
                [(''Foo'', [\<lparr>e_line = 2, e_section = ''Common'', e_num = ''1'', e_cost = ''2'',
                             e_effect = ''e'', e_unlock = ''u''\<rparr>,
                           \<lparr>e_line = 6, e_section = ''Uncommon'', e_num = ''3'', e_cost = ''4'',
                             e_effect = ''e'', e_unlock = ''u''\<rparr>]),
                 (''Bar'', [\<lparr>e_line = 4, e_section = ''Rare'', e_num = ''2'', e_cost = ''3'',
                             e_effect = ''e'', e_unlock = ''u''\<rparr>])],
              r_duplicates =
                [(''Foo'', [\<lparr>e_line = 2, e_section = ''Common'', e_num = ''1'', e_cost = ''2'',
                             e_effect = ''e'', e_unlock = ''u''\<rparr>,
                           \<lparr>e_line = 6, e_section = ''Uncommon'', e_num = ''3'', e_cost = ''4'',
                             e_effect = ''e'', e_unlock = ''u''\<rparr>])],
              r_missing_names = [''Bar''],
              implemented_count = 1, canonical_unique_count = 2,
              duplicate_count = 1, missing_count = 1\<rparr>"
    by code_simp
  note t = duplicate_groups [OF run]
  from t have names: "filter (\<lambda>n. 2 \<le> count_list (display_names ?L) n) (first_seen (display_names ?L))
       = [''Foo'']"
    by simp
  from t have count: "length (first_seen (display_names ?L)) = 2" by simp
  from es run names count show ?thesis by (intro conjI)
qed

section \<open>Every name is accounted for\<close>

text \<open>
  Claim C5. When the run completes, every display name of the catalog is a key of
  \<open>joker_details\<close> exactly once, and exactly one of the four findings holds of it. Whether
  it is missing depends on its canonical identifier and the implemented identifiers
  alone (the same verdict in every catalog that lists the name), and whether it is
  duplicated on the number of its rows alone.
\<close>

theorem every_name_accounted:
  assumes "snd (missing_jokers_analysis content lines) = Inr r"
    and "implemented content = Some impl"
    and "name \<in> set (display_names lines)"
  shows "count_list (map fst (r_joker_details r)) name = 1
       \<and> count_list (finding_cases r name) True = 1
       \<and> (name \<in> set (r_missing_names r) \<longleftrightarrow>
            str_lower (to_camel_case name) \<notin> str_lower ` set impl)
       \<and> (name \<in> set (map fst (r_duplicates r)) \<longleftrightarrow> 2 \<le> count_list (display_names lines) name)
       \<and> (\<forall>lines' r'. snd (missing_jokers_analysis content lines') = Inr r' \<longrightarrow>
                        name \<in> set (display_names lines') \<longrightarrow>
                        (name \<in> set (r_missing_names r') \<longleftrightarrow> name \<in> set (r_missing_names r)))"
proof -
  have jd: "r_joker_details r = joker_details lines"
    using assms(1,2) by (rule analysis_fields)
  have d: "r_duplicates r = duplicates (joker_details lines)"
    using assms(1,2) by (rule analysis_fields)
  have m: "r_missing_names r' = filter (\<lambda>n. str_lower (to_camel_case n) \<notin> set (map str_lower impl))
                                  (first_seen (display_names lines'))"
    if "snd (missing_jokers_analysis content lines') = Inr r'" for lines' r'
    using that assms(2) by (rule analysis_fields)
  have "count_list (map fst (r_joker_details r)) name = 1"
    using assms(3) by (simp add: jd joker_details_keys count_first_seen)
  moreover have "name \<in> set (r_missing_names r) \<longleftrightarrow>
                   str_lower (to_camel_case name) \<notin> str_lower ` set impl"
    using assms(3) by (simp add: m [OF assms(1)])
  moreover have "name \<in> set (map fst (r_duplicates r)) \<longleftrightarrow> 2 \<le> count_list (display_names lines) name"
    using assms(3) by (simp add: d duplicates_grouped comp_def)
  moreover have "\<forall>lines' r'. snd (missing_jokers_analysis content lines') = Inr r' \<longrightarrow>
                        name \<in> set (display_names lines') \<longrightarrow>
                        (name \<in> set (r_missing_names r') \<longleftrightarrow> name \<in> set (r_missing_names r))"
    using assms(3) by (simp add: m [OF assms(1)] m)
  ultimately show ?thesis using finding_cases_one [of r name] by blast
qed

theorem every_name_accounted_witness:
  "implemented ''make_jokers!(Foo);'' = Some [''Foo'']
   \<and> ''Bar'' \<in> set (display_names [''| 1 | Foo | $2 | e | u |'', ''| 2 | Bar | $3 | e | u |'',
                                    ''| 3 | Bar | $4 | f | v |''])
   \<and> snd (missing_jokers_analysis ''make_jokers!(Foo);''
            [''| 1 | Foo | $2 | e | u |'', ''| 2 | Bar | $3 | e | u |'', ''| 3 | Bar | $4 | f | v |''])
       = Inr \<lparr>r_joker_details =
                [(''Foo'', [\<lparr>e_line = 1, e_section = ''Unknown'', e_num = ''1'', e_cost = ''2'',
                             e_effect = ''e'', e_unlock = ''u''\<rparr>]),
                 (''Bar'', [\<lparr>e_line = 2, e_section = ''Unknown'', e_num = ''2'', e_cost = ''3'',
                             e_effect = ''e'', e_unlock = ''u''\<rparr>,
                           \<lparr>e_line = 3, e_section = ''Unknown'', e_num = ''3'', e_cost = ''4'',
                             e_effect = ''f'', e_unlock = ''v''\<rparr>])],
              r_duplicates =
                [(''Bar'', [\<lparr>e_line = 2, e_section = ''Unknown'', e_num = ''2'', e_cost = ''3'',
                             e_effect = ''e'', e_unlock = ''u''\<rparr>,
                           \<lparr>e_line = 3, e_section = ''Unknown'', e_num = ''3'', e_cost = ''4'',
                             e_effect = ''f'', e_unlock = ''v''\<rparr>])],
              r_missing_names = [''Bar''],
              implemented_count = 1, canonical_unique_count = 2,
              duplicate_count = 1, missing_count = 1\<rparr>
   \<and> ''Bar'' \<in> set [''Bar'']
   \<and> str_lower (to_camel_case ''Bar'') \<notin> str_lower ` set [''Foo'']"
proof -
  let ?L = "[''| 1 | Foo | $2 | e | u |'', ''| 2 | Bar | $3 | e | u |'', ''| 3 | Bar | $4 | f | v |'']"
  have impl: "implemented ''make_jokers!(Foo);'' = Some [''Foo'']" by code_simp
  have mem: "''Bar'' \<in> set (display_names ?L)" by code_simp
  have run: "snd (missing_jokers_analysis ''make_jokers!(Foo);'' ?L)
       = Inr \<lparr>r_joker_details =
                [(''Foo'', [\<lparr>e_line = 1, e_section = ''Unknown'', e_num = ''1'', e_cost = ''2'',
                             e_effect = ''e'', e_unlock = ''u''\<rparr>]),
                 (''Bar'', [\<lparr>e_line = 2, e_section = ''Unknown'', e_num = ''2'', e_cost = ''3'',
                             e_effect = ''e'', e_unlock = ''u''\<rparr>,
                           \<lparr>e_line = 3, e_section = ''Unknown'', e_num = ''3'', e_cost = ''4'',
                             e_effect = ''f'', e_unlock = ''v''\<rparr>])],
              r_duplicates =
                [(''Bar'', [\<lparr>e_line = 2, e_section = ''Unknown'', e_num = ''2'', e_cost = ''3'',
                             e_effect = ''e'', e_unlock = ''u''\<rparr>,
                           \<lparr>e_line = 3, e_section = ''Unknown'', e_num = ''3'', e_cost = ''4'',
                             e_effect = ''f'', e_unlock = ''v''\<rparr>])],
              r_missing_names = [''Bar''],
              implemented_count = 1, canonical_unique_count = 2,
              duplicate_count = 1, missing_count = 1\<rparr>"
    by code_simp
  note t = every_name_accounted [OF run impl mem]
  have m: "''Bar'' \<in> set [''Bar'']" by simp
  from t have "(''Bar'' \<in> set [''Bar'']) = (str_lower (to_camel_case ''Bar'') \<notin> str_lower ` set [''Foo''])"
    by simp
  with m have n: "str_lower (to_camel_case ''Bar'') \<notin> str_lower ` set [''Foo'']" by (rule iffD1 [rotated])
  from impl mem run m n show ?thesis by (intro conjI)
qed

section \<open>Names are compared as written\<close>

text \<open>
  Claim C10. Rows are grouped and counted by the display name as written. When the run
  completes and two rows carry different display names (whether or not their canonical
  identifiers coincide), no group holds an occurrence of each, each of the two names is
  a key of \<open>joker_details\<close> of its own, so the number of unique names counts both, and
  each is tested against the implemented identifiers through its own canonical
  identifier.
\<close>

theorem raw_name_keyed:
  assumes "snd (missing_jokers_analysis content lines) = Inr r"
    and "implemented content = Some impl"
    and "n1 \<in> set (display_names lines)"
    and "n2 \<in> set (display_names lines)"
    and "n1 \<noteq> n2"
  shows "(\<forall>n g e1 e2. (n, g) \<in> set (r_joker_details r) \<longrightarrow>
             (n1, e1) \<in> set (entries lines) \<longrightarrow> (n2, e2) \<in> set (entries lines) \<longrightarrow>
             \<not> (e1 \<in> set g \<and> e2 \<in> set g))
       \<and> set (r_duplicates r) \<subseteq> set (r_joker_details r)
       \<and> count_list (map fst (r_joker_details r)) n1 = 1
       \<and> count_list (map fst (r_joker_details r)) n2 = 1
       \<and> canonical_unique_count r = length (r_joker_details r)
       \<and> canonical_unique_count r = card (set (display_names lines))
       \<and> 2 \<le> canonical_unique_count r
       \<and> (n1 \<in> set (r_missing_names r) \<longleftrightarrow> str_lower (to_camel_case n1) \<notin> str_lower ` set impl)
       \<and> (n2 \<in> set (r_missing_names r) \<longleftrightarrow> str_lower (to_camel_case n2) \<notin> str_lower ` set impl)"
proof -
  have jd: "r_joker_details r = joker_details lines"
    using assms(1,2) by (rule analysis_fields)
  have d: "r_duplicates r = duplicates (joker_details lines)"
    using assms(1,2) by (rule analysis_fields)
  have m: "r_missing_names r = filter (\<lambda>n. str_lower (to_camel_case n) \<notin> set (map str_lower impl))
                                 (first_seen (display_names lines))"
    using assms(1,2) by (rule analysis_fields)
  have c: "canonical_unique_count r = length (first_seen (display_names lines))"
    using assms(1,2) by (rule analysis_fields)
  have groups: "\<forall>n g e1 e2. (n, g) \<in> set (r_joker_details r) \<longrightarrow>
             (n1, e1) \<in> set (entries lines) \<longrightarrow> (n2, e2) \<in> set (entries lines) \<longrightarrow>
             \<not> (e1 \<in> set g \<and> e2 \<in> set g)"
  proof (intro allI impI notI)
    fix n g e1 e2
    assume g: "(n, g) \<in> set (r_joker_details r)"
      and e1: "(n1, e1) \<in> set (entries lines)" and e2: "(n2, e2) \<in> set (entries lines)"
      and both: "e1 \<in> set g \<and> e2 \<in> set g"
    from g have "g = occurrences_of n (entries lines)"
      by (auto simp: jd joker_details_grouped)
    with both have "(n, e1) \<in> set (entries lines)" and "(n, e2) \<in> set (entries lines)"
      by (simp_all add: occurrences_of_member)
    with e1 e2 have "n = n1" and "n = n2" by (auto dest: entries_one_name)
    with assms(5) show False by simp
  qed
  have sub: "set (r_duplicates r) \<subseteq> set (r_joker_details r)"
    by (auto simp: d jd duplicates_def)
  have k1: "count_list (map fst (r_joker_details r)) n1 = 1"
    using assms(3) by (simp add: jd joker_details_keys count_first_seen)
  have k2: "count_list (map fst (r_joker_details r)) n2 = 1"
    using assms(4) by (simp add: jd joker_details_keys count_first_seen)
  have len: "canonical_unique_count r = length (r_joker_details r)"
    by (simp add: c jd joker_details_grouped)
  have crd: "canonical_unique_count r = card (set (display_names lines))"
    by (simp add: c length_first_seen)
  have "card {n1, n2} \<le> card (set (display_names lines))"
    using assms(3,4) by (intro card_mono) auto
  then have two: "2 \<le> canonical_unique_count r" using assms(5) by (simp add: crd)
  have m1: "n1 \<in> set (r_missing_names r) \<longleftrightarrow> str_lower (to_camel_case n1) \<notin> str_lower ` set impl"
    using assms(3) by (simp add: m)
  have m2: "n2 \<in> set (r_missing_names r) \<longleftrightarrow> str_lower (to_camel_case n2) \<notin> str_lower ` set impl"
    using assms(4) by (simp add: m)
  from groups sub k1 k2 len crd two m1 m2 show ?thesis by (intro conjI)
qed

theorem raw_name_keyed_witness:
  "implemented ''make_jokers!(Joker);'' = Some [''Joker'']
   \<and> display_names [''| 1 | Oops | $2 | e | u |'', ''| 2 | Oops! | $3 | f | v |'']
       = [''Oops'', ''Oops!'']
   \<and> to_camel_case ''Oops'' = ''Oops'' \<and> to_camel_case ''Oops!'' = ''Oops''
   \<and> snd (missing_jokers_analysis ''make_jokers!(Joker);''
            [''| 1 | Oops | $2 | e | u |'', ''| 2 | Oops! | $3 | f | v |''])
       = Inr \<lparr>r_joker_details =
                [(''Oops'', [\<lparr>e_line = 1, e_section = ''Unknown'', e_num = ''1'', e_cost = ''2'',
                              e_effect = ''e'', e_unlock = ''u''\<rparr>]),
                 (''Oops!'', [\<lparr>e_line = 2, e_section = ''Unknown'', e_num = ''2'', e_cost = ''3'',
                               e_effect = ''f'', e_unlock = ''v''\<rparr>])],
              r_duplicates = [], r_missing_names = [''Oops'', ''Oops!''],
              implemented_count = 1, canonical_unique_count = 2,
              duplicate_count = 0, missing_count = 2\<rparr>
   \<and> card (set (display_names [''| 1 | Oops | $2 | e | u |'', ''| 2 | Oops! | $3 | f | v |''])) = 2"
proof -
  let ?L = "[''| 1 | Oops | $2 | e | u |'', ''| 2 | Oops! | $3 | f | v |'']"
  have impl: "implemented ''make_jokers!(Joker);'' = Some [''Joker'']" by code_simp
  have names: "display_names ?L = [''Oops'', ''Oops!'']" by code_simp
  have c1: "to_camel_case ''Oops'' = ''Oops''" by code_simp
  have c2: "to_camel_case ''Oops!'' = ''Oops''" by code_simp
  have run: "snd (missing_jokers_analysis ''make_jokers!(Joker);'' ?L)
       = Inr \<lparr>r_joker_details =
                [(''Oops'', [\<lparr>e_line = 1, e_section = ''Unknown'', e_num = ''1'', e_cost = ''2'',
                              e_effect = ''e'', e_unlock = ''u''\<rparr>]),
                 (''Oops!'', [\<lparr>e_line = 2, e_section = ''Unknown'', e_num = ''2'', e_cost = ''3'',
                               e_effect = ''f'', e_unlock = ''v''\<rparr>])],
              r_duplicates = [], r_missing_names = [''Oops'', ''Oops!''],
              implemented_count = 1, canonical_unique_count = 2,
              duplicate_count = 0, missing_count = 2\<rparr>"
    by code_simp
  have n1: "''Oops'' \<in> set (display_names ?L)" by (simp only: names) simp
  have n2: "''Oops!'' \<in> set (display_names ?L)" by (simp only: names) simp
  have ne: "''Oops'' \<noteq> ''Oops!''" by simp
  note t = raw_name_keyed [OF run impl n1 n2 ne]
  from t have "2 = card (set (display_names ?L))" by simp
  then have crd: "card (set (display_names ?L)) = 2" by (rule sym)
  from impl names c1 c2 run crd show ?thesis by (intro conjI)
qed

section \<open>The run of \<open>find_missing.py\<close>\<close>

lemma first_seen_empty: "first_seen xs = [] \<longleftrightarrow> xs = []"
  using set_first_seen [of xs] by (metis set_empty)

lemma fold_first_seen: "fold (\<lambda>n ks. if n \<in> set ks then ks else ks @ [n]) xs [] = first_seen xs"
proof (induction xs rule: rev_induct)
  case Nil
  then show ?case by simp
next
  case (snoc x xs)
  then show ?case by (simp add: first_seen_snoc)
qed

lemma scan_lines_fm_keys:
  "map fst (scan_lines_fm jd ls)
     = fold (\<lambda>n ks. if n \<in> set ks then ks else ks @ [n]) (map fst (entries_from i cur ls)) (map fst jd)"
proof (induction ls arbitrary: jd i cur)
  case Nil
  then show ?case by simp
next
  case (Cons line ls)
  show ?case
  proof (cases "row_match line")
    case None
    then show ?thesis using Cons [of jd "i + 1" "next_section cur line"]
      by (simp add: Let_def parse_row_def)
  next
    case (Some row)
    obtain num name cost effect unlock where row: "row = (num, name, cost, effect, unlock)"
      by (cases row)
    show ?thesis
      using Some row
        Cons [of "AList.update (str_strip name)
                    \<lparr>d_num = num, d_cost = cost, d_effect = str_strip effect,
                     d_unlock = str_strip unlock\<rparr> jd" "i + 1" "next_section cur line"]
      by (simp add: Let_def parse_row_def update_keys)
  qed
qed

lemma joker_details_fm_keys: "map fst (joker_details_fm lines) = first_seen (display_names lines)"
  using scan_lines_fm_keys [of "[]" lines 1 "''Unknown''"]
  by (simp add: joker_details_fm_def display_names_def entries_def fold_first_seen)

lemma joker_details_fm_length:
  "length (joker_details_fm lines) = length (first_seen (display_names lines))"
  using joker_details_fm_keys [of lines] by (metis length_map)

lemma joker_details_fm_empty: "joker_details_fm lines = [] \<longleftrightarrow> display_names lines = []"
  using joker_details_fm_keys [of lines] first_seen_empty [of "display_names lines"]
  by (metis map_is_Nil_conv)

lemma joker_details_empty: "joker_details lines = [] \<longleftrightarrow> display_names lines = []"
  using joker_details_keys [of lines] first_seen_empty [of "display_names lines"]
  by (metis map_is_Nil_conv)

lemma implemented_lower_keys:
  "set (map fst (fold (\<lambda>j d. AList.update (str_lower j) j d) impl d0))
     = str_lower ` set impl \<union> set (map fst d0)"
  by (induction impl arbitrary: d0) (auto simp: dom_update)

lemma missing_names_fm_Some:
  "missing_names_fm (Some d) (acc, sti) ns
     = Inr (acc @ filter (\<lambda>n. str_lower (to_camel_case n) \<notin> set (map fst d)) ns,
            fold (\<lambda>n. AList.update n (to_camel_case n)) ns sti)"
  by (induction ns arbitrary: acc sti) (simp_all add: Let_def)

lemma missing_names_fm_None:
  "missing_names_fm None (acc, sti) ns
     = (if ns = [] then Inr (acc, sti) else Inl (NameError ''implemented_lower''))"
  by (cases ns) (simp_all add: Let_def)

lemma find_missing_completed:
  "snd (find_missing content lines) = Inr s \<longleftrightarrow>
     (\<exists>impl. implemented content = Some impl
        \<and> s = \<lparr>s_missing_names = filter (\<lambda>n. str_lower (to_camel_case n) \<notin> str_lower ` set impl)
                                   (first_seen (display_names lines)),
               s_total = length (first_seen (display_names lines)),
               s_implemented = length impl,
               s_missing = length (filter (\<lambda>n. str_lower (to_camel_case n) \<notin> str_lower ` set impl)
                                      (first_seen (display_names lines)))\<rparr>)"
proof (cases "implemented content")
  case None
  then show ?thesis
    by (simp add: find_missing_def implemented_lower_def missing_names_fm_None Let_def)
next
  case (Some impl)
  define d where "d = fold (\<lambda>j d. AList.update (str_lower j) j d) impl []"
  have keys: "set (map fst d) = str_lower ` set impl"
    unfolding d_def implemented_lower_keys by simp
  have il: "implemented_lower content = Some d"
    by (simp add: implemented_lower_def Some d_def)
  have mn: "missing_names_fm (Some d) ([], []) (map fst (joker_details_fm lines))
              = Inr (filter (\<lambda>n. str_lower (to_camel_case n) \<notin> str_lower ` set impl)
                       (first_seen (display_names lines)),
                     fold (\<lambda>n. AList.update n (to_camel_case n)) (first_seen (display_names lines)) [])"
    by (simp only: missing_names_fm_Some joker_details_fm_keys keys append_Nil)
  show ?thesis
    by (auto simp: find_missing_def Let_def il mn Some joker_details_fm_length)
qed

lemma implemented_None: "macro_search content = None \<Longrightarrow> implemented content = None"
  by (simp add: implemented_def)

lemma find_missing_unbound:
  assumes "implemented content = None"
  shows "find_missing content lines
           = (if display_names lines = [] then
                ([''Total in JOKERS.md: '' @ str_nat 0], Inl (NameError ''implemented''))
              else ([], Inl (NameError ''implemented_lower'')))"
  using assms
  by (simp add: find_missing_def implemented_lower_def missing_names_fm_None Let_def
        joker_details_fm_empty joker_details_fm_length)

lemma analysis_unbound:
  assumes "implemented content = None"
  shows "missing_jokers_analysis content lines
           = (if display_names lines = [] then (banner, Inl (NameError ''implemented''))
              else ([], Inl (NameError ''implemented_set'')))"
  using assms
  by (simp add: missing_jokers_analysis_def implemented_set_def missing_names_None Let_def
        joker_details_empty)
section \<open>The counts\<close>

text \<open>
  Claim C6, as the scripts compute it. When a run completes, the count of implemented
  identifiers is the length of the list \<open>implemented\<close>: an identifier that the registration
  construct holds twice is counted twice, and the count is the cardinality of the set
  of implemented identifiers when no identifier repeats. The count of unique names is the
  number of distinct display names, the count of duplicates the number of duplicate
  groups (one per duplicated name), and the count of missing names the cardinality of
  the missing set. \<open>find_missing.py\<close> prints the same three counts it has.
\<close>

theorem report_counts:
  assumes "implemented content = Some impl"
  shows "(snd (missing_jokers_analysis content lines) = Inr r \<longrightarrow>
            implemented_count r = length impl
          \<and> (distinct impl \<longrightarrow> implemented_count r = card (set impl))
          \<and> canonical_unique_count r = card (set (display_names lines))
          \<and> duplicate_count r = length (r_duplicates r)
          \<and> duplicate_count r = card (set (map fst (r_duplicates r)))
          \<and> missing_count r = card (set (r_missing_names r)))
       \<and> (snd (find_missing content lines) = Inr s \<longrightarrow>
            s_implemented s = length impl
          \<and> (distinct impl \<longrightarrow> s_implemented s = card (set impl))
          \<and> s_total s = card (set (display_names lines))
          \<and> s_missing s = card (set (s_missing_names s)))"
proof (intro conjI impI)
  assume run: "snd (missing_jokers_analysis content lines) = Inr r"
  have d: "r_duplicates r = duplicates (joker_details lines)"
    using run assms by (rule analysis_fields)
  have m: "r_missing_names r = filter (\<lambda>n. str_lower (to_camel_case n) \<notin> set (map str_lower impl))
                                 (first_seen (display_names lines))"
    using run assms by (rule analysis_fields)
  show i: "implemented_count r = length impl"
    using run assms by (rule analysis_fields)
  show "implemented_count r = card (set impl)" if "distinct impl"
    using that i by (simp add: distinct_card)
  have "canonical_unique_count r = length (first_seen (display_names lines))"
    using run assms by (rule analysis_fields)
  then show "canonical_unique_count r = card (set (display_names lines))"
    by (simp add: length_first_seen)
  show dc: "duplicate_count r = length (r_duplicates r)"
    using run assms by (rule analysis_fields)
  have "distinct (map fst (r_duplicates r))"
    by (simp add: d duplicates_grouped comp_def)
  then show "duplicate_count r = card (set (map fst (r_duplicates r)))"
    using dc distinct_card [of "map fst (r_duplicates r)"] by simp
  have "missing_count r = length (r_missing_names r)"
    using run assms by (rule analysis_fields)
  moreover have "distinct (r_missing_names r)" by (simp add: m)
  ultimately show "missing_count r = card (set (r_missing_names r))"
    by (simp add: distinct_card)
next
  assume "snd (find_missing content lines) = Inr s"
  with assms have s: "s = \<lparr>s_missing_names = filter (\<lambda>n. str_lower (to_camel_case n) \<notin> str_lower ` set impl)
                                   (first_seen (display_names lines)),
               s_total = length (first_seen (display_names lines)),
               s_implemented = length impl,
               s_missing = length (filter (\<lambda>n. str_lower (to_camel_case n) \<notin> str_lower ` set impl)
                                      (first_seen (display_names lines)))\<rparr>"
    by (simp add: find_missing_completed)
  show i: "s_implemented s = length impl" by (simp add: s)
  show "s_implemented s = card (set impl)" if "distinct impl"
    using that i by (simp add: distinct_card)
  show "s_total s = card (set (display_names lines))"
    by (simp add: s length_first_seen)
  have "distinct (s_missing_names s)" by (simp add: s)
  moreover have "s_missing s = length (s_missing_names s)" by (simp add: s)
  ultimately show "s_missing s = card (set (s_missing_names s))"
    by (simp add: distinct_card)
qed

theorem report_counts_witness:
  "implemented ''make_jokers!(Foo, Baz);'' = Some [''Foo'', ''Baz'']
   \<and> distinct [''Foo'', ''Baz'']
   \<and> snd (missing_jokers_analysis ''make_jokers!(Foo, Baz);''
            [''| 1 | Foo | $2 | e | u |'', ''| 2 | Bar | $3 | e | u |'', ''| 3 | Foo | $4 | f | v |''])
       = Inr \<lparr>r_joker_details =
                [(''Foo'', [\<lparr>e_line = 1, e_section = ''Unknown'', e_num = ''1'', e_cost = ''2'',
                             e_effect = ''e'', e_unlock = ''u''\<rparr>,
                           \<lparr>e_line = 3, e_section = ''Unknown'', e_num = ''3'', e_cost = ''4'',
                             e_effect = ''f'', e_unlock = ''v''\<rparr>]),
                 (''Bar'', [\<lparr>e_line = 2, e_section = ''Unknown'', e_num = ''2'', e_cost = ''3'',
                             e_effect = ''e'', e_unlock = ''u''\<rparr>])],
              r_duplicates =
                [(''Foo'', [\<lparr>e_line = 1, e_section = ''Unknown'', e_num = ''1'', e_cost = ''2'',
                             e_effect = ''e'', e_unlock = ''u''\<rparr>,
                           \<lparr>e_line = 3, e_section = ''Unknown'', e_num = ''3'', e_cost = ''4'',
                             e_effect = ''f'', e_unlock = ''v''\<rparr>])],
              r_missing_names = [''Bar''],
              implemented_count = 2, canonical_unique_count = 2,
              duplicate_count = 1, missing_count = 1\<rparr>
   \<and> snd (find_missing ''make_jokers!(Foo, Baz);''
            [''| 1 | Foo | $2 | e | u |'', ''| 2 | Bar | $3 | e | u |'', ''| 3 | Foo | $4 | f | v |''])
       = Inr \<lparr>s_missing_names = [''Bar''], s_total = 2, s_implemented = 2, s_missing = 1\<rparr>
   \<and> card (set [''Foo'', ''Baz'']) = 2
   \<and> card (set (display_names
            [''| 1 | Foo | $2 | e | u |'', ''| 2 | Bar | $3 | e | u |'', ''| 3 | Foo | $4 | f | v |''])) = 2"
proof -
  let ?C = "''make_jokers!(Foo, Baz);''"
  let ?L = "[''| 1 | Foo | $2 | e | u |'', ''| 2 | Bar | $3 | e | u |'', ''| 3 | Foo | $4 | f | v |'']"
  have impl: "implemented ?C = Some [''Foo'', ''Baz'']" by code_simp
  have dist: "distinct [''Foo'', ''Baz'']" by simp
  have run: "snd (missing_jokers_analysis ?C ?L)
       = Inr \<lparr>r_joker_details =
                [(''Foo'', [\<lparr>e_line = 1, e_section = ''Unknown'', e_num = ''1'', e_cost = ''2'',
                             e_effect = ''e'', e_unlock = ''u''\<rparr>,
                           \<lparr>e_line = 3, e_section = ''Unknown'', e_num = ''3'', e_cost = ''4'',
                             e_effect = ''f'', e_unlock = ''v''\<rparr>]),
                 (''Bar'', [\<lparr>e_line = 2, e_section = ''Unknown'', e_num = ''2'', e_cost = ''3'',
                             e_effect = ''e'', e_unlock = ''u''\<rparr>])],
              r_duplicates =
                [(''Foo'', [\<lparr>e_line = 1, e_section = ''Unknown'', e_num = ''1'', e_cost = ''2'',
                             e_effect = ''e'', e_unlock = ''u''\<rparr>,
                           \<lparr>e_line = 3, e_section = ''Unknown'', e_num = ''3'', e_cost = ''4'',
                             e_effect = ''f'', e_unlock = ''v''\<rparr>])],
              r_missing_names = [''Bar''],
              implemented_count = 2, canonical_unique_count = 2,
              duplicate_count = 1, missing_count = 1\<rparr>"
    by code_simp
  have fm: "snd (find_missing ?C ?L)
       = Inr \<lparr>s_missing_names = [''Bar''], s_total = 2, s_implemented = 2, s_missing = 1\<rparr>"
    by code_simp
  note t = report_counts [OF impl, of ?L _
      "\<lparr>s_missing_names = [''Bar''], s_total = 2, s_implemented = 2, s_missing = 1\<rparr>"]
  from t [THEN conjunct1, THEN mp, OF run] dist
  have "2 = card (set [''Foo'', ''Baz''])" by simp
  then have c1: "card (set [''Foo'', ''Baz'']) = 2" by (rule sym)
  from t [THEN conjunct2, THEN mp, OF fm]
  have "2 = card (set (display_names ?L))" by simp
  then have c2: "card (set (display_names ?L)) = 2" by (rule sym)
  from impl dist run fm c1 c2 show ?thesis by (intro conjI)
qed

text \<open>An identifier registered twice is counted twice, by both scripts, while the set of
  implemented identifiers has one member.\<close>

theorem implemented_count_repeats:
  "implemented ''make_jokers!(Foo, Foo);'' = Some [''Foo'', ''Foo'']
   \<and> card (set [''Foo'', ''Foo'']) = 1
   \<and> snd (missing_jokers_analysis ''make_jokers!(Foo, Foo);'' [''| 1 | Foo | $2 | e | u |''])
       = Inr \<lparr>r_joker_details =
                [(''Foo'', [\<lparr>e_line = 1, e_section = ''Unknown'', e_num = ''1'', e_cost = ''2'',
                             e_effect = ''e'', e_unlock = ''u''\<rparr>])],
              r_duplicates = [], r_missing_names = [],
              implemented_count = 2, canonical_unique_count = 1,
              duplicate_count = 0, missing_count = 0\<rparr>
   \<and> snd (find_missing ''make_jokers!(Foo, Foo);'' [''| 1 | Foo | $2 | e | u |''])
       = Inr \<lparr>s_missing_names = [], s_total = 1, s_implemented = 2, s_missing = 0\<rparr>"
  by code_simp

section \<open>A source without the registration construct\<close>

text \<open>
  Claim C9, as the scripts behave. When the implementation source holds no
  \<open>make_jokers!\<close> call, neither run completes: it ends with the \<open>NameError\<close> of the first
  unbound name it reads. When the catalog has at least one table row, that is in the
  loop over the names, before anything is printed.
\<close>

theorem no_registration_construct:
  assumes "macro_search content = None"
  shows "snd (find_missing content lines)
           = Inl (NameError (if display_names lines = [] then ''implemented''
                             else ''implemented_lower''))
       \<and> snd (missing_jokers_analysis content lines)
           = Inl (NameError (if display_names lines = [] then ''implemented''
                             else ''implemented_set''))
       \<and> (display_names lines \<noteq> [] \<longrightarrow>
            fst (find_missing content lines) = []
          \<and> fst (missing_jokers_analysis content lines) = [])"
proof -
  have none: "implemented content = None" using assms by (rule implemented_None)
  show ?thesis
    by (simp add: find_missing_unbound [OF none] analysis_unbound [OF none])
qed

theorem no_registration_construct_witness:
  "macro_search ''pub struct Joker;'' = None
   \<and> display_names [''| 1 | Foo | $2 | e | u |''] = [''Foo'']
   \<and> find_missing ''pub struct Joker;'' [''| 1 | Foo | $2 | e | u |'']
       = ([], Inl (NameError ''implemented_lower''))
   \<and> missing_jokers_analysis ''pub struct Joker;'' [''| 1 | Foo | $2 | e | u |'']
       = ([], Inl (NameError ''implemented_set''))"
proof -
  have h: "macro_search ''pub struct Joker;'' = None" by code_simp
  have names: "display_names [''| 1 | Foo | $2 | e | u |''] = [''Foo'']" by code_simp
  note t = no_registration_construct [OF h, of "[''| 1 | Foo | $2 | e | u |'']"]
  from t have a: "find_missing ''pub struct Joker;'' [''| 1 | Foo | $2 | e | u |'']
       = ([], Inl (NameError ''implemented_lower''))"
    by (simp add: names prod_eq_iff)
  from t have b: "missing_jokers_analysis ''pub struct Joker;'' [''| 1 | Foo | $2 | e | u |'']
       = ([], Inl (NameError ''implemented_set''))"
    by (simp add: names prod_eq_iff)
  from h names a b show ?thesis by (intro conjI)
qed

text \<open>With no table row in the catalog, each script has printed before it fails.\<close>

theorem output_before_failure:
  "macro_search ''pub struct Joker;'' = None
   \<and> find_missing ''pub struct Joker;'' [''# Jokers'', ''No table yet.'']
       = ([''Total in JOKERS.md: 0''], Inl (NameError ''implemented''))
   \<and> missing_jokers_analysis ''pub struct Joker;'' [''# Jokers'', ''No table yet.'']
       = ([''================================================================================'',
           ''MISSING JOKERS ANALYSIS'',
           ''================================================================================'',
           []],
          Inl (NameError ''implemented''))"
  by code_simp

end
